theory Spec2Isabelle
  imports Main "HOL-Library.Sublist"
begin

text \<open>
  A model of \<^verbatim>\<open>excel_cleaner.py\<close>, the cleaner of delimited text files: the normalization
  functions (\<^verbatim>\<open>normalize_fio\<close>, \<^verbatim>\<open>normalize_location\<close>, \<^verbatim>\<open>normalize_sentence\<close>,
  \<^verbatim>\<open>normalize_text\<close>) and the run \<^verbatim>\<open>run_data_processing\<close> with its steps: reading the
  lines, parsing and normalizing, aligning the rows with the header, removing duplicates,
  auditing each row and exporting. The definitions come first, in the order of the script;
  the properties follow, each claim under its number.
\<close>

section \<open>Python strings\<close>

text \<open>
  A Python \<^verbatim>\<open>str\<close> is a sequence of Unicode code points: \<^verbatim>\<open>len\<close> counts code points and
  indexing returns one. A string is therefore a list of code points, and a code point is a
  natural number. ASCII literals of the source are written through \<open>u\<close>.
\<close>

type_synonym cp = nat
type_synonym ustr = "cp list"

definition u :: "string \<Rightarrow> ustr" where
  "u s = map of_char s"

text \<open>
  The string methods the script calls (\<^verbatim>\<open>strip\<close>, \<^verbatim>\<open>split\<close>, \<^verbatim>\<open>upper\<close>, \<^verbatim>\<open>lower\<close>,
  \<^verbatim>\<open>capitalize\<close>, \<^verbatim>\<open>title\<close>, \<^verbatim>\<open>isdigit\<close>) are algorithms of the interpreter over the
  Unicode character database. The database is not part of the repository, so it is a
  parameter of the model: a record of the per-code-point properties and full case mappings
  that CPython reads. A theorem stated for every \<open>U\<close> holds for the tables of every
  Python version.
\<close>

record ucd =
  isspace :: "cp \<Rightarrow> bool"
  isdigit :: "cp \<Rightarrow> bool"
  cased :: "cp \<Rightarrow> bool"
  case_ignorable :: "cp \<Rightarrow> bool"
  to_upper :: "cp \<Rightarrow> ustr"
  to_lower :: "cp \<Rightarrow> ustr"
  to_title :: "cp \<Rightarrow> ustr"

text \<open>Exceptions the modelled code can raise, each with its message.
  \<^verbatim>\<open>FileNotFoundError\<close> and \<^verbatim>\<open>ValueError\<close> are raised by the script itself; \<^verbatim>\<open>IndexError\<close>
  is what the interpreter raises when a string or a list is indexed out of range.\<close>

datatype py_error = IndexError string | FileNotFoundError string | ValueError string

text \<open>\<^verbatim>\<open>s[i]\<close> on a string, for a non-negative literal index.\<close>

definition py_index :: "ustr \<Rightarrow> nat \<Rightarrow> py_error + cp" where
  "py_index s i =
     (if i < length s then Inr (s ! i) else Inl (IndexError ''string index out of range''))"

text \<open>\<^verbatim>\<open>str.upper\<close>: the full uppercase mapping of every code point.\<close>

definition py_upper :: "ucd \<Rightarrow> ustr \<Rightarrow> ustr" where
  "py_upper U s = concat (map (to_upper U) s)"

text \<open>
  \<^verbatim>\<open>str.lower\<close> maps every code point by the full lowercase mapping, except capital sigma
  (U+03A3), which becomes the final sigma U+03C2 when a cased letter stands to its left and
  none to its right (case-ignorable code points skipped), and U+03C3 otherwise. \<open>sofar\<close> and
  \<open>rest\<close> are the parts of the whole string to the left and to the right of the code point.
\<close>

definition final_sigma :: "ucd \<Rightarrow> ustr \<Rightarrow> ustr \<Rightarrow> bool" where
  "final_sigma U sofar rest =
     ((case dropWhile (case_ignorable U) (rev sofar) of [] \<Rightarrow> False | c # _ \<Rightarrow> cased U c) \<and>
      (case dropWhile (case_ignorable U) rest of [] \<Rightarrow> True | c # _ \<Rightarrow> \<not> cased U c))"

definition lower_ucs4 :: "ucd \<Rightarrow> ustr \<Rightarrow> cp \<Rightarrow> ustr \<Rightarrow> ustr" where
  "lower_ucs4 U sofar c rest =
     (if c = 0x3A3 then [if final_sigma U sofar rest then 0x3C2 else 0x3C3]
      else to_lower U c)"

fun do_lower :: "ucd \<Rightarrow> ustr \<Rightarrow> ustr \<Rightarrow> ustr" where
  "do_lower U sofar [] = []"
| "do_lower U sofar (c # rest) =
     lower_ucs4 U sofar c rest @ do_lower U (sofar @ [c]) rest"

definition py_lower :: "ucd \<Rightarrow> ustr \<Rightarrow> ustr" where
  "py_lower U s = do_lower U [] s"

text \<open>
  \<^verbatim>\<open>str.capitalize\<close>: the first code point by the titlecase mapping, the rest lowercased
  in place (CPython 3.8 and later; up to 3.7 the first code point was uppercased).
\<close>

definition py_capitalize :: "ucd \<Rightarrow> ustr \<Rightarrow> ustr" where
  "py_capitalize U s =
     (case s of [] \<Rightarrow> [] | c # rest \<Rightarrow> to_title U c @ do_lower U [c] rest)"

text \<open>
  \<^verbatim>\<open>str.title\<close>: a code point that follows a cased code point is lowercased, any other is
  titlecased; \<open>prev\<close> says whether the preceding code point was cased.
\<close>

fun do_title :: "ucd \<Rightarrow> ustr \<Rightarrow> bool \<Rightarrow> ustr \<Rightarrow> ustr" where
  "do_title U sofar prev [] = []"
| "do_title U sofar prev (c # rest) =
     (if prev then lower_ucs4 U sofar c rest else to_title U c)
       @ do_title U (sofar @ [c]) (cased U c) rest"

definition py_title :: "ucd \<Rightarrow> ustr \<Rightarrow> ustr" where
  "py_title U s = do_title U [] False s"

text \<open>\<^verbatim>\<open>str.strip()\<close> removes the white space at both ends.\<close>

definition py_strip :: "ucd \<Rightarrow> ustr \<Rightarrow> ustr" where
  "py_strip U s = rev (dropWhile (isspace U) (rev (dropWhile (isspace U) s)))"

text \<open>\<^verbatim>\<open>str.split()\<close> with no argument: the maximal runs of code points that are not white
  space. \<open>cur\<close> is the run being read.\<close>

fun split_ws :: "ucd \<Rightarrow> ustr \<Rightarrow> ustr \<Rightarrow> ustr list" where
  "split_ws U cur [] = (if cur = [] then [] else [cur])"
| "split_ws U cur (c # cs) =
     (if isspace U c then (if cur = [] then split_ws U [] cs else cur # split_ws U [] cs)
      else split_ws U (cur @ [c]) cs)"

definition py_split :: "ucd \<Rightarrow> ustr \<Rightarrow> ustr list" where
  "py_split U s = split_ws U [] s"

text \<open>\<^verbatim>\<open>sep.join(xs)\<close>.\<close>

fun py_join :: "ustr \<Rightarrow> ustr list \<Rightarrow> ustr" where
  "py_join sep [] = []"
| "py_join sep [x] = x"
| "py_join sep (x # y # zs) = x @ sep @ py_join sep (y # zs)"

text \<open>\<^verbatim>\<open>str.isdigit\<close>: at least one code point, and all of them digits.\<close>

definition py_isdigit :: "ucd \<Rightarrow> ustr \<Rightarrow> bool" where
  "py_isdigit U s = (s \<noteq> [] \<and> list_all (isdigit U) s)"

text \<open>\<^verbatim>\<open>needle in hay\<close> for strings: \<open>needle\<close> occurs as a contiguous part of \<open>hay\<close>.\<close>

fun py_in :: "ustr \<Rightarrow> ustr \<Rightarrow> bool" where
  "py_in needle [] = (needle = [])"
| "py_in needle (c # cs) = (prefix needle (c # cs) \<or> py_in needle cs)"

text \<open>\<^verbatim>\<open>re.split(r"[;,]", line)\<close>: a new field starts behind every semicolon or comma, so
  the result always has at least one field. \<open>cur\<close> is the field being read.\<close>

fun split_fields :: "ustr \<Rightarrow> ustr \<Rightarrow> ustr list" where
  "split_fields cur [] = [cur]"
| "split_fields cur (c # cs) =
     (if c = 0x3B \<or> c = 0x2C then cur # split_fields [] cs
      else split_fields (cur @ [c]) cs)"

definition re_split :: "ustr \<Rightarrow> ustr list" where
  "re_split line = split_fields [] line"

text \<open>\<^verbatim>\<open>str(n)\<close> for a non-negative integer: its decimal digits.\<close>

fun digits_of :: "nat \<Rightarrow> ustr" where
  "digits_of n = (if n < 10 then [48 + n] else digits_of (n div 10) @ [48 + n mod 10])"

declare digits_of.simps [simp del]

section \<open>Normalization functions\<close>

text \<open>The three Cyrillic literals of the dispatcher: "sotrudnik" (employee), "gorod"
  (city) and "mesto" (place), as code points.\<close>

definition lit_sotrudnik :: ustr where
  "lit_sotrudnik = [0x441, 0x43E, 0x442, 0x440, 0x443, 0x434, 0x43D, 0x438, 0x43A]"

definition lit_gorod :: ustr where
  "lit_gorod = [0x433, 0x43E, 0x440, 0x43E, 0x434]"

definition lit_mesto :: ustr where
  "lit_mesto = [0x43C, 0x435, 0x441, 0x442, 0x43E]"

text \<open>The test \<^verbatim>\<open>len(word) == 2 and word[1] == "."\<close>; \<^verbatim>\<open>and\<close> reads \<^verbatim>\<open>word[1]\<close> only
  when the length is 2.\<close>

definition is_initial :: "ustr \<Rightarrow> py_error + bool" where
  "is_initial word =
     (if length word = 2
      then (case py_index word 1 of Inl e \<Rightarrow> Inl e | Inr c \<Rightarrow> Inr (c = 0x2E))
      else Inr False)"

text \<open>The loop of \<^verbatim>\<open>normalize_fio\<close> over the words; \<open>normalized_words\<close> is the list it
  appends to.\<close>

fun fio_loop :: "ucd \<Rightarrow> ustr list \<Rightarrow> ustr list \<Rightarrow> py_error + ustr list" where
  "fio_loop U normalized_words [] = Inr normalized_words"
| "fio_loop U normalized_words (word # words) =
     (case is_initial word of
        Inl e \<Rightarrow> Inl e
      | Inr True \<Rightarrow>
          (case py_index word 0 of
             Inl e \<Rightarrow> Inl e
           | Inr c \<Rightarrow> fio_loop U (normalized_words @ [py_upper U [c] @ [0x2E]]) words)
      | Inr False \<Rightarrow> fio_loop U (normalized_words @ [py_capitalize U word]) words)"

definition normalize_fio :: "ucd \<Rightarrow> ustr \<Rightarrow> py_error + ustr" where
  "normalize_fio U v =
     (if v = [] then Inr v
      else (case fio_loop U [] (py_split U v) of
              Inl e \<Rightarrow> Inl e
            | Inr normalized_words \<Rightarrow> Inr (py_join [0x20] normalized_words)))"

definition normalize_location :: "ucd \<Rightarrow> ustr \<Rightarrow> ustr" where
  "normalize_location U v = (if v = [] then v else py_title U v)"

definition normalize_sentence :: "ucd \<Rightarrow> ustr \<Rightarrow> py_error + ustr" where
  "normalize_sentence U v0 =
     (let v = py_strip U v0 in
      if v = [] then Inr v
      else (case py_index v 0 of
              Inl e \<Rightarrow> Inl e
            | Inr c \<Rightarrow> Inr (py_upper U [c] @ drop 1 v)))"

definition normalize_text :: "ucd \<Rightarrow> ustr \<Rightarrow> ustr \<Rightarrow> py_error + ustr" where
  "normalize_text U v column_name =
     (if v = [] then Inr v
      else if py_in lit_sotrudnik (py_lower U column_name) then normalize_fio U v
      else if py_in lit_gorod (py_lower U column_name) \<or> py_in lit_mesto (py_lower U column_name)
        then Inr (normalize_location U v)
      else normalize_sentence U v)"

section \<open>A fragment of the Unicode character database\<close>

text \<open>
  For evaluating the functions on concrete strings: the table \<open>unicode_fragment\<close> agrees with
  the Unicode character database on Basic Latin (U+0000 to U+007F), on the Cyrillic letters
  U+0400 to U+045F, on every white-space code point, and on U+00DF (sharp s), U+0130
  (capital I with dot above) and U+0307 (combining dot above). It leaves every other code
  point without case. The concrete strings evaluated below stay within these code points.
\<close>

definition frag_isspace :: "cp \<Rightarrow> bool" where
  "frag_isspace c =
     ((9 \<le> c \<and> c \<le> 13) \<or> (28 \<le> c \<and> c \<le> 32) \<or> c = 133 \<or> c = 160 \<or> c = 5760
      \<or> (8192 \<le> c \<and> c \<le> 8202) \<or> c = 8232 \<or> c = 8233 \<or> c = 8239 \<or> c = 8287
      \<or> c = 12288)"

definition frag_isdigit :: "cp \<Rightarrow> bool" where
  "frag_isdigit c = (48 \<le> c \<and> c \<le> 57)"

definition frag_cased :: "cp \<Rightarrow> bool" where
  "frag_cased c =
     ((65 \<le> c \<and> c \<le> 90) \<or> (97 \<le> c \<and> c \<le> 122) \<or> (0x400 \<le> c \<and> c \<le> 0x45F)
      \<or> c = 0xDF \<or> c = 0x130)"

definition frag_case_ignorable :: "cp \<Rightarrow> bool" where
  "frag_case_ignorable c =
     (c = 0x27 \<or> c = 0x2E \<or> c = 0x3A \<or> c = 0x5E \<or> c = 0x60 \<or> c = 0x307)"

definition frag_to_upper :: "cp \<Rightarrow> ustr" where
  "frag_to_upper c =
     (if 97 \<le> c \<and> c \<le> 122 then [c - 32]
      else if 0x430 \<le> c \<and> c \<le> 0x44F then [c - 32]
      else if 0x450 \<le> c \<and> c \<le> 0x45F then [c - 80]
      else if c = 0xDF then [0x53, 0x53]
      else [c])"

definition frag_to_lower :: "cp \<Rightarrow> ustr" where
  "frag_to_lower c =
     (if 65 \<le> c \<and> c \<le> 90 then [c + 32]
      else if 0x410 \<le> c \<and> c \<le> 0x42F then [c + 32]
      else if 0x400 \<le> c \<and> c \<le> 0x40F then [c + 80]
      else if c = 0x130 then [0x69, 0x307]
      else [c])"

definition frag_to_title :: "cp \<Rightarrow> ustr" where
  "frag_to_title c = (if c = 0xDF then [0x53, 0x73] else frag_to_upper c)"

definition unicode_fragment :: ucd where
  "unicode_fragment =
     \<lparr> isspace = frag_isspace, isdigit = frag_isdigit, cased = frag_cased,
       case_ignorable = frag_case_ignorable, to_upper = frag_to_upper,
       to_lower = frag_to_lower, to_title = frag_to_title \<rparr>"

section \<open>The processing run\<close>

text \<open>
  An input file as the script sees it: the name of its path and the lines that iterating
  over the open file yields. Opening and decoding the file are taken to succeed.
\<close>

record input_file =
  file_name :: ustr
  file_lines :: "ustr list"

text \<open>\<^verbatim>\<open>[line.strip() for line in f if line.strip()]\<close>\<close>

definition read_lines :: "ucd \<Rightarrow> ustr list \<Rightarrow> ustr list" where
  "read_lines U f = map (py_strip U) (filter (\<lambda>line. py_strip U line \<noteq> []) f)"

text \<open>\<^verbatim>\<open>[normalize_text(p, col_name) for p, col_name in zip(parts, rows[0])]\<close>, applied to the
  zipped pairs; the first call that raises ends the comprehension.\<close>

fun normalize_parts :: "ucd \<Rightarrow> (ustr \<times> ustr) list \<Rightarrow> py_error + ustr list" where
  "normalize_parts U [] = Inr []"
| "normalize_parts U ((p, col_name) # ps) =
     (case normalize_text U p col_name of
        Inl e \<Rightarrow> Inl e
      | Inr v \<Rightarrow>
          (case normalize_parts U ps of
             Inl e \<Rightarrow> Inl e
           | Inr vs \<Rightarrow> Inr (v # vs)))"

text \<open>Step 1, the loop over the lines; \<open>rows\<close> is the list it appends to, and its first
  element, once there is one, is the header.\<close>

fun parse_loop :: "ucd \<Rightarrow> ustr list list \<Rightarrow> ustr list \<Rightarrow> py_error + ustr list list" where
  "parse_loop U rows [] = Inr rows"
| "parse_loop U rows (line # lines) =
     (let parts = map (py_strip U) (re_split line) in
      case rows of
        [] \<Rightarrow> parse_loop U (rows @ [parts]) lines
      | header # _ \<Rightarrow>
          (case normalize_parts U (zip parts header) of
             Inl e \<Rightarrow> Inl e
           | Inr clean_parts \<Rightarrow> parse_loop U (rows @ [clean_parts]) lines))"

text \<open>Step 2: the header gets a name \<^verbatim>\<open>Additional_Field_{i + 1}\<close> for every index \<open>i\<close> from
  its length up to the widest row, and every data row is padded or cut to its length.\<close>

definition extend_header :: "ustr list \<Rightarrow> nat \<Rightarrow> ustr list" where
  "extend_header header max_cols_found =
     (if length header < max_cols_found
      then header @ map (\<lambda>i. u ''Additional_Field_'' @ digits_of (i + 1))
                        [length header ..< max_cols_found]
      else header)"

definition align_row :: "ustr list \<Rightarrow> ustr list \<Rightarrow> ustr list" where
  "align_row header r =
     (if length r < length header then r @ replicate (length header - length r) []
      else take (length header) r)"

text \<open>
  Step 3, \<^verbatim>\<open>df.drop_duplicates().reset_index(drop=True)\<close>: pandas marks a row as duplicated
  when an equal row stands above it (\<^verbatim>\<open>keep="first"\<close>) and keeps the rows that are not marked.
  \<open>seen\<close> holds the rows read so far.
\<close>

fun duplicated :: "'a list \<Rightarrow> 'a list \<Rightarrow> bool list" where
  "duplicated seen [] = []"
| "duplicated seen (r # rs) = (r \<in> set seen) # duplicated (seen @ [r]) rs"

definition drop_duplicates :: "'a list \<Rightarrow> 'a list" where
  "drop_duplicates rs = map fst (filter (\<lambda>(r, d). \<not> d) (zip rs (duplicated [] rs)))"

text \<open>Step 4, \<^verbatim>\<open>audit_integrity\<close> on the values of one row. The loop over the values appends
  at most one flag and stops there.\<close>

fun audit_loop :: "ucd \<Rightarrow> ustr list \<Rightarrow> ustr list \<Rightarrow> ustr list" where
  "audit_loop U flags [] = flags"
| "audit_loop U flags (s # vals) =
     (if py_isdigit U s then audit_loop U flags vals
      else if 0 < length s \<and> length s < 2 then flags @ [u ''Validation Required'']
      else audit_loop U flags vals)"

definition audit_integrity :: "ucd \<Rightarrow> ustr list \<Rightarrow> ustr" where
  "audit_integrity U row =
     (let flags = (if [] \<in> set row then [u ''Incomplete Entry''] else [])
      in py_join (u '', '') (audit_loop U flags row))"

text \<open>What the run exports: the columns and rows of the frame, and the \<^verbatim>\<open>Audit_Flag\<close> column
  assigned to it.\<close>

record report =
  columns :: "ustr list"
  table_rows :: "ustr list list"
  audit_flag :: "ustr list"

text \<open>A log line without its time stamp: a message, or the traceback of an exception.\<close>

datatype log_entry = Message ustr | Traceback py_error

text \<open>
  The body of the \<^verbatim>\<open>try\<close> block up to the export: the log lines written on the way and
  either the exception raised or the frame to export. \<open>files\<close> is what the glob over the
  input directory yields.
\<close>

definition process :: "ucd \<Rightarrow> input_file list \<Rightarrow> log_entry list \<times> (py_error + report)" where
  "process U files =
     (case files of
        [] \<Rightarrow> ([], Inl (FileNotFoundError ''No files found in raw_data directory.''))
      | target_file # _ \<Rightarrow>
          (let acquired = [Message (u ''Target file acquired: '' @ file_name target_file)];
               lines = read_lines U (file_lines target_file)
           in if lines = [] then (acquired, Inl (ValueError ''Input file contains no data.''))
              else (case parse_loop U [] lines of
                      Inl e \<Rightarrow> (acquired, Inl e)
                    | Inr [] \<Rightarrow> (acquired, Inl (IndexError ''list index out of range''))
                    | Inr (header # data_rows) \<Rightarrow>
                        (let max_cols_found = Max (set (map length (header # data_rows)));
                             detected =
                               (if length header < max_cols_found
                                then [Message (u ''Detected '' @ digits_of max_cols_found
                                                @ u '' columns. Extending header.'')]
                                else []);
                             header' = extend_header header max_cols_found;
                             normalized_data = map (align_row header') data_rows;
                             df = drop_duplicates normalized_data;
                             removed =
                               [Message (u ''Duplicates removed: ''
                                          @ digits_of (length normalized_data - length df))]
                         in (acquired @ detected @ removed,
                             Inr \<lparr> columns = header', table_rows = df,
                                   audit_flag = map (audit_integrity U) df \<rparr>)))))"

text \<open>The files and streams the run writes.\<close>

record world =
  log_file :: "log_entry list"
  stdout :: "ustr list"
  output_csv :: "report option"
  output_excel :: "report option"
  opened :: bool

text \<open>\<^verbatim>\<open>str(e)\<close> of an exception: its message.\<close>

fun error_text :: "py_error \<Rightarrow> ustr" where
  "error_text (IndexError m) = u m"
| "error_text (FileNotFoundError m) = u m"
| "error_text (ValueError m) = u m"

text \<open>\<^verbatim>\<open>run_data_processing\<close>: every exception of the body is caught, logged and printed;
  only a body that ends normally exports.\<close>

definition run_data_processing :: "ucd \<Rightarrow> input_file list \<Rightarrow> world \<Rightarrow> world" where
  "run_data_processing U files w =
     (let started = log_file w @ [Message (u ''--- DATA PROCESSING STARTED ---'')]
      in case process U files of
           (written, Inl e) \<Rightarrow>
             w \<lparr> log_file := started @ written @ [Traceback e],
                 stdout := stdout w @ [u ''Critical Error: '' @ error_text e] \<rparr>
         | (written, Inr df) \<Rightarrow>
             w \<lparr> log_file := started @ written
                              @ [Message (u ''--- PROCESSING COMPLETED SUCCESSFULLY ---'')],
                 stdout := stdout w @ [u ''Data processing complete: ''
                                        @ digits_of (length (table_rows df))
                                        @ u '' records finalized.''],
                 output_csv := Some df,
                 output_excel := Some df,
                 opened := True \<rparr>)"

section \<open>Conditions on the case mappings\<close>

text \<open>
  Two conditions under which normalizing twice gives what normalizing once gives. Both can
  be evaluated. In the table \<open>unicode_fragment\<close> every string meets the first, and every
  code point but the sharp s, the capital I with dot above and the capital sigma meets the
  second (section "The fragment meets the conditions").

  \<open>stable_initial U v\<close>: the uppercase mapping of the first code point that is left of \<open>v\<close>
  after stripping starts and ends with a code point that is not white space, and its first
  code point is its own uppercase.

  \<open>simple_cased U c\<close>: the code point \<open>c\<close> is not the capital sigma, its titlecase and
  lowercase mappings are single code points \<open>t\<close> and \<open>l\<close>, both cased exactly when \<open>c\<close> is,
  \<open>t\<close> is its own titlecase and \<open>l\<close> its own lowercase.
\<close>

definition stable_initial :: "ucd \<Rightarrow> ustr \<Rightarrow> bool" where
  "stable_initial U v =
     (case py_strip U v of
        [] \<Rightarrow> True
      | c # _ \<Rightarrow>
          (case to_upper U c of
             [] \<Rightarrow> False
           | d # ds \<Rightarrow> \<not> isspace U d \<and> \<not> isspace U (last (d # ds)) \<and> to_upper U d = [d]))"

definition simple_cased :: "ucd \<Rightarrow> cp \<Rightarrow> bool" where
  "simple_cased U c =
     (c \<noteq> 0x3A3 \<and>
      (case (to_title U c, to_lower U c) of
         ([t], [l]) \<Rightarrow>
           l \<noteq> 0x3A3 \<and> cased U t = cased U c \<and> cased U l = cased U c
           \<and> to_title U t = [t] \<and> to_lower U l = [l]
       | _ \<Rightarrow> False))"

section \<open>Example inputs\<close>

text \<open>The strings of the worked examples, as code points: the column names "Sotrudnik"
  (employee) and "Gorod" (city), the names "ivanov ivan" and "petrov p. p." and the city
  "moskva", each as typed and as normalized.\<close>

definition col_employee :: ustr where
  "col_employee = [0x421, 0x43E, 0x442, 0x440, 0x443, 0x434, 0x43D, 0x438, 0x43A]"

definition col_city :: ustr where
  "col_city = [0x413, 0x43E, 0x440, 0x43E, 0x434]"

definition ivanov_typed :: ustr where
  "ivanov_typed = [0x438, 0x432, 0x430, 0x43D, 0x43E, 0x432, 0x20, 0x438, 0x432, 0x430, 0x43D]"

definition ivanov_normal :: ustr where
  "ivanov_normal = [0x418, 0x432, 0x430, 0x43D, 0x43E, 0x432, 0x20, 0x418, 0x432, 0x430, 0x43D]"

definition petrov_typed :: ustr where
  "petrov_typed = [0x43F, 0x435, 0x442, 0x440, 0x43E, 0x432, 0x20, 0x43F, 0x2E, 0x20, 0x43F, 0x2E]"

definition petrov_normal :: ustr where
  "petrov_normal = [0x41F, 0x435, 0x442, 0x440, 0x43E, 0x432, 0x20, 0x41F, 0x2E, 0x20, 0x41F, 0x2E]"

definition moskva_typed :: ustr where
  "moskva_typed = [0x43C, 0x43E, 0x441, 0x43A, 0x432, 0x430]"

definition moskva_normal :: ustr where
  "moskva_normal = [0x41C, 0x43E, 0x441, 0x43A, 0x432, 0x430]"

text \<open>The city "sankt-peterburg" as typed and as normalized, and a string with the capital I
  with dot above (U+0130) between "a" and "b".\<close>

definition peterburg_typed :: ustr where
  "peterburg_typed =
     [0x441, 0x430, 0x43D, 0x43A, 0x442, 0x2D,
      0x43F, 0x435, 0x442, 0x435, 0x440, 0x431, 0x443, 0x440, 0x433]"

definition peterburg_normal :: ustr where
  "peterburg_normal =
     [0x421, 0x430, 0x43D, 0x43A, 0x442, 0x2D,
      0x41F, 0x435, 0x442, 0x435, 0x440, 0x431, 0x443, 0x440, 0x433]"

definition dotted_typed :: ustr where
  "dotted_typed = [0x61, 0x130, 0x62]"

text \<open>A file of two lines: the header "Sotrudnik,Gorod" and the data line
  "ivanov ivan,moskva,x1", which has one field more than the header.\<close>

definition ragged_lines :: "ustr list" where
  "ragged_lines =
     [col_employee @ [0x2C] @ col_city @ [0x0A],
      ivanov_typed @ [0x2C] @ moskva_typed @ [0x2C] @ [0x78, 0x31] @ [0x0A]]"

definition ragged_files :: "input_file list" where
  "ragged_files = [\<lparr> file_name = u ''staff.csv'', file_lines = ragged_lines \<rparr>]"

text \<open>A file whose two lines are blank, and the state of the outputs before a first run.\<close>

definition blank_file :: input_file where
  "blank_file = \<lparr> file_name = u ''empty.txt'', file_lines = [[0x20, 0x0A], [0x0A]] \<rparr>"

definition fresh_world :: world where
  "fresh_world =
     \<lparr> log_file = [], stdout = [], output_csv = None, output_excel = None, opened = False \<rparr>"

section \<open>Evaluation on the fragment\<close>

lemmas frag_defs =
  unicode_fragment_def frag_isspace_def frag_isdigit_def frag_cased_def
  frag_case_ignorable_def frag_to_upper_def frag_to_lower_def frag_to_title_def

lemmas eval_defs =
  re_split_def py_strip_def normalize_text_def normalize_fio_def normalize_location_def
  normalize_sentence_def py_lower_def py_title_def py_split_def py_capitalize_def py_upper_def
  lower_ucs4_def is_initial_def py_index_def py_isdigit_def
  lit_sotrudnik_def lit_gorod_def lit_mesto_def frag_defs

lemmas example_defs =
  col_employee_def col_city_def ivanov_typed_def ivanov_normal_def petrov_typed_def
  petrov_normal_def moskva_typed_def moskva_normal_def peterburg_typed_def
  peterburg_normal_def dotted_typed_def

lemma u_simps: "u [] = []" "u (c # cs) = of_char c # u cs"
  by (simp_all add: u_def)

lemma ragged_read: "read_lines unicode_fragment ragged_lines \<noteq> []"
  by (simp add: ragged_lines_def example_defs read_lines_def py_strip_def frag_defs)

lemma ragged_parse:
  "parse_loop unicode_fragment [] (read_lines unicode_fragment ragged_lines) =
     Inr [[col_employee, col_city], [ivanov_normal, moskva_normal]]"
  by (simp add: ragged_lines_def read_lines_def example_defs eval_defs)

lemma ragged_audit: "audit_integrity unicode_fragment [ivanov_normal, moskva_normal] = []"
  by (simp add: example_defs audit_integrity_def py_isdigit_def frag_defs)

lemma ragged_process:
  "process unicode_fragment ragged_files =
     ([Message (u ''Target file acquired: '' @ u ''staff.csv''),
       Message (u ''Duplicates removed: '' @ digits_of 0)],
      Inr \<lparr> columns = [col_employee, col_city],
            table_rows = [[ivanov_normal, moskva_normal]],
            audit_flag = [[]] \<rparr>)"
  by (simp add: process_def ragged_files_def Let_def ragged_read ragged_parse extend_header_def
      align_row_def drop_duplicates_def ragged_audit del: parse_loop.simps)

section \<open>Deduplication, alignment and audit\<close>

lemma duplicated_length: "length (duplicated seen rs) = length rs"
  by (induction rs arbitrary: seen) auto

lemma duplicated_snoc:
  "duplicated seen (rs @ [r]) = duplicated seen rs @ [r \<in> set seen \<union> set rs]"
  by (induction rs arbitrary: seen) auto

lemma drop_duplicates_Nil: "drop_duplicates [] = []"
  by (simp add: drop_duplicates_def)

lemma drop_duplicates_snoc:
  "drop_duplicates (rs @ [r]) = drop_duplicates rs @ (if r \<in> set rs then [] else [r])"
  by (simp add: drop_duplicates_def duplicated_snoc duplicated_length)

lemma drop_duplicates_set: "set (drop_duplicates rs) = set rs"
  by (induction rs rule: rev_induct) (auto simp: drop_duplicates_snoc drop_duplicates_Nil)

lemma drop_duplicates_distinct: "distinct (drop_duplicates rs)"
  by (induction rs rule: rev_induct)
     (auto simp: drop_duplicates_snoc drop_duplicates_set drop_duplicates_Nil)

lemma drop_duplicates_index:
  "drop_duplicates rs = map (\<lambda>i. rs ! i) (filter (\<lambda>i. rs ! i \<notin> set (take i rs)) [0..<length rs])"
proof (induction rs rule: rev_induct)
  case Nil
  show ?case by (simp add: drop_duplicates_Nil)
next
  case (snoc r rs)
  let ?keep = "\<lambda>xs i. xs ! i \<notin> set (take i xs)"
  have f: "filter (?keep (rs @ [r])) [0..<length rs] = filter (?keep rs) [0..<length rs]"
    by (rule filter_cong) (auto simp: nth_append)
  have m: "map (\<lambda>i. (rs @ [r]) ! i) (filter (?keep rs) [0..<length rs])
         = map (\<lambda>i. rs ! i) (filter (?keep rs) [0..<length rs])"
    by (rule map_cong) (auto simp: nth_append)
  have "map (\<lambda>i. (rs @ [r]) ! i) (filter (?keep (rs @ [r])) [0..<length (rs @ [r])])
      = map (\<lambda>i. (rs @ [r]) ! i) (filter (?keep (rs @ [r])) [0..<length rs])
        @ (if r \<in> set rs then [] else [r])"
    by simp
  also have "\<dots> = drop_duplicates rs @ (if r \<in> set rs then [] else [r])"
    unfolding f m snoc.IH [symmetric] ..
  finally show ?case
    by (simp only: drop_duplicates_snoc)
qed

lemma drop_duplicates_subseq: "subseq (drop_duplicates rs) rs"
proof (induction rs rule: rev_induct)
  case Nil
  show ?case by (simp add: drop_duplicates_Nil)
next
  case (snoc r rs)
  have "subseq (drop_duplicates rs @ []) (rs @ [r])"
    by (rule list_emb_append_mono [OF snoc.IH]) simp
  moreover have "subseq (drop_duplicates rs @ [r]) (rs @ [r])"
    by (rule list_emb_append_mono [OF snoc.IH]) simp
  ultimately show ?case
    by (simp add: drop_duplicates_snoc)
qed

lemma align_row_length: "length (align_row header r) = length header"
  by (simp add: align_row_def)

lemma length_one: "s \<noteq> [] \<and> length s < 2 \<longleftrightarrow> length s = 1"
  by (cases s) auto

lemma audit_loop_flags:
  "audit_loop U flags row =
     flags @ (if list_ex (\<lambda>s. \<not> py_isdigit U s \<and> length s = 1) row
              then [u ''Validation Required''] else [])"
proof (induction row arbitrary: flags)
  case Nil
  show ?case by simp
next
  case (Cons s row)
  show ?case
  proof (cases "py_isdigit U s")
    case True
    then show ?thesis by (simp add: Cons.IH)
  next
    case False
    then show ?thesis
      using length_one [of s] by (cases "length s = 1") (auto simp: Cons.IH)
  qed
qed

lemma process_rows:
  "process U files = (lg, Inr df) \<Longrightarrow>
     \<exists>data_rows. table_rows df = drop_duplicates (map (align_row (columns df)) data_rows)"
  by (auto simp: process_def Let_def split: list.splits sum.splits if_splits)

text \<open>
  Claim C3. After structural alignment every data row has exactly as many fields as the
  header: a shorter row is padded on the right with empty strings, a longer row is cut on
  the right to the header's length. This holds of \<open>align_row\<close> for every header and row,
  and of every frame that a run exports.
\<close>

theorem row_alignment:
  "length (align_row header r) = length header
   \<and> (length r < length header \<longrightarrow>
        align_row header r = r @ replicate (length header - length r) [])
   \<and> (length header < length r \<longrightarrow> align_row header r = take (length header) r)
   \<and> (\<forall>lg df. process U files = (lg, Inr df) \<longrightarrow>
        list_all (\<lambda>row. length row = length (columns df)) (table_rows df))"
proof -
  have "list_all (\<lambda>row. length row = length (columns df)) (table_rows df)"
    if "process U files = (lg, Inr df)" for lg df
  proof -
    from process_rows [OF that] obtain data_rows
      where "table_rows df = drop_duplicates (map (align_row (columns df)) data_rows)" ..
    then have "set (table_rows df) = set (map (align_row (columns df)) data_rows)"
      by (simp add: drop_duplicates_set)
    then show ?thesis
      by (auto simp: list_all_iff align_row_length)
  qed
  then show ?thesis
    by (simp add: align_row_def)
qed

theorem row_alignment_witness:
  "align_row [u ''a'', u ''b''] [u ''x''] = [u ''x'', []]
   \<and> align_row [u ''a''] [u ''x'', u ''y''] = [u ''x'']
   \<and> process unicode_fragment ragged_files =
       ([Message (u ''Target file acquired: '' @ u ''staff.csv''),
         Message (u ''Duplicates removed: '' @ digits_of 0)],
        Inr \<lparr> columns = [col_employee, col_city],
              table_rows = [[ivanov_normal, moskva_normal]], audit_flag = [[]] \<rparr>)
   \<and> list_all (\<lambda>row. length row = length [col_employee, col_city])
         [[ivanov_normal, moskva_normal]]"
  using row_alignment [of "[u ''a'', u ''b'']" "[u ''x'']" unicode_fragment ragged_files]
        row_alignment [of "[u ''a'']" "[u ''x'', u ''y'']" unicode_fragment ragged_files]
  by (simp add: ragged_process)

text \<open>
  Claim C4. Deduplication removes exactly the rows that are equal, field by field, to a row
  above them: the result consists of the rows at the indices \<open>i\<close> whose row does not occur
  among the first \<open>i\<close> rows, in their original order. So no two rows of the result are
  equal, every distinct row survives in its first occurrence, and the survivors keep their
  relative order.
\<close>

theorem dedup_first_occurrences:
  "drop_duplicates rs =
     map (\<lambda>i. rs ! i) (filter (\<lambda>i. rs ! i \<notin> set (take i rs)) [0..<length rs])
   \<and> distinct (drop_duplicates rs)
   \<and> set (drop_duplicates rs) = set rs
   \<and> subseq (drop_duplicates rs) rs"
  using drop_duplicates_index drop_duplicates_distinct drop_duplicates_set
    drop_duplicates_subseq
  by (intro conjI)

theorem dedup_first_occurrences_witness:
  "drop_duplicates [[u ''b'', u ''1''], [u ''a'', u ''2''], [u ''b'', u ''1''], [u ''c'', u ''3'']]
     = [[u ''b'', u ''1''], [u ''a'', u ''2''], [u ''c'', u ''3'']]"
  using dedup_first_occurrences
    [of "[[u ''b'', u ''1''], [u ''a'', u ''2''], [u ''b'', u ''1''], [u ''c'', u ''3'']]"]
  by (simp add: drop_duplicates_def u_simps)

text \<open>
  Claim C6. The audit of a row always yields a string, determined by two tests. The row is
  incomplete when one of its fields is the empty string. The row is suspect when one of its
  fields is not made of digits only and has a length strictly between 0 and 2. The result
  is "Incomplete Entry", "Validation Required", both joined by a comma and a space in this
  order, or the empty string when neither test holds; each flag occurs at most once.
\<close>

theorem audit_flags:
  "audit_integrity U row =
     (let incomplete = ([] \<in> set row);
          suspect = list_ex (\<lambda>s. \<not> py_isdigit U s \<and> 0 < length s \<and> length s < 2) row
      in if incomplete \<and> suspect then u ''Incomplete Entry, Validation Required''
         else if incomplete then u ''Incomplete Entry''
         else if suspect then u ''Validation Required''
         else [])"
proof -
  have "(\<lambda>s. \<not> py_isdigit U s \<and> 0 < length s \<and> length s < 2)
      = (\<lambda>s. \<not> py_isdigit U s \<and> length s = 1)"
    using length_one by auto
  then show ?thesis
    by (simp add: audit_integrity_def audit_loop_flags Let_def u_def)
qed

theorem audit_flags_witness:
  "audit_integrity unicode_fragment [u ''x'', [], u ''5'']
     = u ''Incomplete Entry, Validation Required''
   \<and> audit_integrity unicode_fragment [u ''xy'', [], u ''5''] = u ''Incomplete Entry''
   \<and> audit_integrity unicode_fragment [u ''x'', u ''ab'', u ''5''] = u ''Validation Required''
   \<and> audit_integrity unicode_fragment [u ''xy'', u ''55'', u ''5''] = []"
  using audit_flags [of unicode_fragment "[u ''x'', [], u ''5'']"]
        audit_flags [of unicode_fragment "[u ''xy'', [], u ''5'']"]
        audit_flags [of unicode_fragment "[u ''x'', u ''ab'', u ''5'']"]
        audit_flags [of unicode_fragment "[u ''xy'', u ''55'', u ''5'']"]
  by (simp add: u_simps py_isdigit_def frag_defs)

section \<open>Totality of normalization and parsing\<close>

lemma is_initial_total:
  "is_initial word = Inr (length word = 2 \<and> word ! 1 = 0x2E)"
  by (simp add: is_initial_def py_index_def)

lemma fio_loop_map:
  "fio_loop U normalized_words words =
     Inr (normalized_words @
          map (\<lambda>w. if length w = 2 \<and> w ! 1 = 0x2E then py_upper U [w ! 0] @ [0x2E]
                    else py_capitalize U w) words)"
  by (induction words arbitrary: normalized_words)
     (simp_all add: is_initial_total py_index_def split: bool.split)

lemma normalize_fio_tokens:
  "v \<noteq> [] \<Longrightarrow>
   normalize_fio U v =
     Inr (py_join [0x20]
           (map (\<lambda>w. if length w = 2 \<and> w ! 1 = 0x2E then py_upper U [w ! 0] @ [0x2E]
                     else py_capitalize U w) (py_split U v)))"
  by (simp add: normalize_fio_def fio_loop_map)

lemma normalize_fio_total: "\<exists>s. normalize_fio U v = Inr s"
  by (cases "v = []") (simp_all add: normalize_fio_tokens, simp add: normalize_fio_def)

lemma normalize_sentence_value:
  "normalize_sentence U v =
     Inr (case py_strip U v of [] \<Rightarrow> [] | c # rest \<Rightarrow> to_upper U c @ rest)"
  by (simp add: normalize_sentence_def Let_def py_index_def py_upper_def split: list.splits)

lemma normalize_text_total: "\<exists>s. normalize_text U v c = Inr s"
  using normalize_fio_total [of U v]
  by (simp add: normalize_text_def normalize_sentence_value)

lemma split_ws_nonempty: "[] \<notin> set (split_ws U cur s)"
  by (induction s arbitrary: cur) auto

lemma split_ws_run:
  "isspace U a \<Longrightarrow> isspace U b \<Longrightarrow>
   split_ws U cur (xs @ [a, b] @ ys) = split_ws U cur (xs @ [a] @ ys)"
  by (induction xs arbitrary: cur) auto

lemma dropWhile_all: "(\<forall>x\<in>set (dropWhile P xs). P x) \<longleftrightarrow> (\<forall>x\<in>set xs. P x)"
  by (induction xs) auto

lemma py_strip_empty_iff: "py_strip U v = [] \<longleftrightarrow> list_all (isspace U) v"
  by (simp add: py_strip_def list_all_iff dropWhile_all)

lemma read_lines_empty_iff:
  "read_lines U ls = [] \<longleftrightarrow> list_all (\<lambda>l. list_all (isspace U) l) ls"
  by (auto simp: read_lines_def filter_empty_conv py_strip_empty_iff list_all_iff)

lemma normalize_parts_total: "\<exists>vs. normalize_parts U ps = Inr vs \<and> length vs = length ps"
proof (induction ps)
  case Nil
  show ?case by simp
next
  case (Cons p ps)
  obtain v col where p: "p = (v, col)" by (cases p)
  obtain s where s: "normalize_text U v col = Inr s"
    using normalize_text_total by blast
  from Cons obtain vs where "normalize_parts U ps = Inr vs" "length vs = length ps" by blast
  with p s show ?case by simp
qed

lemma parse_loop_total:
  "\<exists>rows'. parse_loop U rows lines = Inr rows' \<and> length rows' = length rows + length lines"
proof (induction lines arbitrary: rows)
  case Nil
  show ?case by simp
next
  case (Cons line lines)
  show ?case
  proof (cases rows)
    case Nil
    with Cons [of "[map (py_strip U) (re_split line)]"] show ?thesis
      by (simp add: Let_def)
  next
    case (Cons header rs)
    obtain vs where vs: "normalize_parts U (zip (map (py_strip U) (re_split line)) header) = Inr vs"
      using normalize_parts_total by blast
    from Cons.IH [of "rows @ [vs]"] Cons vs show ?thesis
      by (simp add: Let_def)
  qed
qed

lemma normalize_fio_run:
  assumes "isspace U a" and "isspace U b"
  shows "normalize_fio U (xs @ [a, b] @ ys) = normalize_fio U (xs @ [a] @ ys)"
proof -
  have "py_split U (xs @ [a, b] @ ys) = py_split U (xs @ [a] @ ys)"
    unfolding py_split_def by (rule split_ws_run [OF assms])
  moreover have "xs @ [a, b] @ ys \<noteq> []" and "xs @ [a] @ ys \<noteq> []"
    by simp_all
  ultimately show ?thesis
    unfolding normalize_fio_def by (simp only: if_False)
qed

text \<open>
  Claim C8, as the code has it. For every string and every column name, normalization
  returns a string: no index is read out of range in any of the three modes. No token of a
  person name is empty: \<^verbatim>\<open>split()\<close> takes a run of white space as one separator, so two
  white-space code points in a row give the same result as one, and consecutive spaces do
  not produce zero-length words.
\<close>

theorem normalization_total:
  "(\<exists>s. normalize_text U v c = Inr s)
   \<and> [] \<notin> set (py_split U v)
   \<and> (isspace U a \<and> isspace U b \<longrightarrow>
        normalize_fio U (xs @ [a, b] @ ys) = normalize_fio U (xs @ [a] @ ys))"
  using normalize_text_total [of U v c] split_ws_nonempty [of U "[]" v]
    normalize_fio_run [of U a b xs ys]
  by (simp add: py_split_def)

theorem normalization_total_witness:
  "normalize_text unicode_fragment (u ''a  b'') col_employee = Inr (u ''A B'')
   \<and> [] \<notin> set (py_split unicode_fragment (u ''a  b''))
   \<and> isspace unicode_fragment 0x20
   \<and> normalize_fio unicode_fragment (u ''a'' @ [0x20, 0x20] @ u ''b'')
       = normalize_fio unicode_fragment (u ''a'' @ [0x20] @ u ''b'')"
  using normalization_total [of unicode_fragment "u ''a  b''" col_employee "0x20" "0x20" "u ''a''" "u ''b''"]
  by (simp add: u_simps example_defs eval_defs)

text \<open>
  Claim C8 as stated says that consecutive spaces yield empty tokens that are treated as
  zero-length words. On "a  b" (two spaces) the tokens are "a" and "b" only, and the result
  is "A B" with one space.
\<close>

theorem consecutive_spaces_no_empty_token:
  "py_split unicode_fragment (u ''a  b'') = [u ''a'', u ''b'']
   \<and> [] \<notin> set (py_split unicode_fragment (u ''a  b''))
   \<and> normalize_fio unicode_fragment (u ''a  b'') = Inr (u ''A B'')"
  by (simp add: u_simps eval_defs)

text \<open>
  Claim C10. A non-empty value of white space only, in a column that dispatches to
  sentence mode, is normalized to the empty string; and a row with an empty field, wherever
  it stands, gets an audit string that starts with "Incomplete Entry".
\<close>

theorem blank_value_becomes_empty:
  "v \<noteq> [] \<and> list_all (isspace U) v
   \<and> \<not> py_in lit_sotrudnik (py_lower U c)
   \<and> \<not> py_in lit_gorod (py_lower U c) \<and> \<not> py_in lit_mesto (py_lower U c)
   \<longrightarrow> normalize_text U v c = Inr []
       \<and> (\<forall>left right. prefix (u ''Incomplete Entry'') (audit_integrity U (left @ [] # right)))"
proof -
  have "normalize_sentence U v = Inr []" if "list_all (isspace U) v"
    using that py_strip_empty_iff [of U v] by (simp add: normalize_sentence_value)
  moreover have "prefix (u ''Incomplete Entry'') (audit_integrity U (left @ [] # right))"
    for left right
    by (simp add: audit_integrity_def audit_loop_flags)
  ultimately show ?thesis
    by (simp add: normalize_text_def)
qed

theorem blank_value_becomes_empty_witness:
  "[0x20, 0x09] \<noteq> ([] :: ustr) \<and> list_all (isspace unicode_fragment) [0x20, 0x09]
   \<and> \<not> py_in lit_sotrudnik (py_lower unicode_fragment (u ''note''))
   \<and> \<not> py_in lit_gorod (py_lower unicode_fragment (u ''note''))
   \<and> \<not> py_in lit_mesto (py_lower unicode_fragment (u ''note''))
   \<and> normalize_text unicode_fragment [0x20, 0x09] (u ''note'') = Inr []
   \<and> prefix (u ''Incomplete Entry'')
        (audit_integrity unicode_fragment ([u ''ab''] @ [] # [u ''cd'']))
   \<and> audit_integrity unicode_fragment [u ''ab'', [], u ''cd''] = u ''Incomplete Entry''"
proof -
  note blank = blank_value_becomes_empty [of "[0x20, 0x09]" unicode_fragment "u ''note''"]
  have h: "[0x20, 0x09] \<noteq> ([] :: ustr)" "list_all (isspace unicode_fragment) [0x20, 0x09]"
    "\<not> py_in lit_sotrudnik (py_lower unicode_fragment (u ''note''))"
    "\<not> py_in lit_gorod (py_lower unicode_fragment (u ''note''))"
    "\<not> py_in lit_mesto (py_lower unicode_fragment (u ''note''))"
    by (simp_all add: u_simps eval_defs)
  with blank have c: "normalize_text unicode_fragment [0x20, 0x09] (u ''note'') = Inr []"
    "prefix (u ''Incomplete Entry'')
       (audit_integrity unicode_fragment ([u ''ab''] @ [] # [u ''cd'']))"
    by blast+
  have a: "audit_integrity unicode_fragment [u ''ab'', [], u ''cd''] = u ''Incomplete Entry''"
    by (simp add: u_simps audit_integrity_def py_isdigit_def frag_defs)
  from h c a show ?thesis by (intro conjI)
qed

section \<open>The error path of the run\<close>

lemma process_no_files:
  "process U [] = ([], Inl (FileNotFoundError ''No files found in raw_data directory.''))"
  by (simp add: process_def)

lemma process_no_lines:
  "read_lines U (file_lines f) = [] \<Longrightarrow>
   snd (process U (f # fs)) = Inl (ValueError ''Input file contains no data.'')"
  by (simp add: process_def Let_def)

lemma process_some_lines:
  assumes "read_lines U (file_lines f) \<noteq> []"
  shows "\<exists>df. snd (process U (f # fs)) = Inr df"
proof -
  obtain rows where rows: "parse_loop U [] (read_lines U (file_lines f)) = Inr rows"
    and len: "length rows = length (read_lines U (file_lines f))"
    using parse_loop_total [of U "[]" "read_lines U (file_lines f)"] by auto
  from len assms obtain header data_rows where "rows = header # data_rows"
    by (cases rows) auto
  with rows assms show ?thesis
    by (simp add: process_def Let_def del: parse_loop.simps)
qed

lemma run_on_error:
  "snd (process U files) = Inl e \<Longrightarrow>
   output_csv (run_data_processing U files w) = output_csv w
   \<and> output_excel (run_data_processing U files w) = output_excel w
   \<and> opened (run_data_processing U files w) = opened w"
  by (cases "process U files") (simp add: run_data_processing_def Let_def)

lemma run_on_success:
  "snd (process U files) = Inr df \<Longrightarrow>
   output_csv (run_data_processing U files w) = Some df
   \<and> output_excel (run_data_processing U files w) = Some df"
  by (cases "process U files") (simp add: run_data_processing_def Let_def)

text \<open>
  Claim C9. The run takes the error path for its input in exactly two cases: the glob
  yields no file (\<^verbatim>\<open>FileNotFoundError\<close>), or every line of the first file is blank
  (\<^verbatim>\<open>ValueError\<close>); with a line that is not blank the body reaches the export. On the error
  path the CSV and the spreadsheet are left as they were and no file is opened; a body
  that reaches the export writes both. Reading, decoding and writing the files are taken
  to succeed.
\<close>

theorem input_errors:
  "(files = [] \<longrightarrow>
      snd (process U files) = Inl (FileNotFoundError ''No files found in raw_data directory.''))
   \<and> (\<forall>f fs. files = f # fs \<and> list_all (\<lambda>line. list_all (isspace U) line) (file_lines f) \<longrightarrow>
        snd (process U files) = Inl (ValueError ''Input file contains no data.''))
   \<and> (\<forall>f fs. files = f # fs \<and> \<not> list_all (\<lambda>line. list_all (isspace U) line) (file_lines f) \<longrightarrow>
        (\<exists>df. snd (process U files) = Inr df))
   \<and> (\<forall>e. snd (process U files) = Inl e \<longrightarrow>
        output_csv (run_data_processing U files w) = output_csv w
        \<and> output_excel (run_data_processing U files w) = output_excel w
        \<and> opened (run_data_processing U files w) = opened w)
   \<and> (\<forall>df. snd (process U files) = Inr df \<longrightarrow>
        output_csv (run_data_processing U files w) = Some df
        \<and> output_excel (run_data_processing U files w) = Some df)"
  using process_no_files [of U] process_no_lines [of U] process_some_lines [of U]
    run_on_error [of U files _ w] run_on_success [of U files _ w]
  by (simp add: read_lines_empty_iff)

theorem input_errors_witness:
  "snd (process unicode_fragment []) =
     Inl (FileNotFoundError ''No files found in raw_data directory.'')
   \<and> output_csv (run_data_processing unicode_fragment [] fresh_world) = None
   \<and> list_all (\<lambda>line. list_all (isspace unicode_fragment) line) (file_lines blank_file)
   \<and> snd (process unicode_fragment [blank_file]) =
       Inl (ValueError ''Input file contains no data.'')
   \<and> output_csv (run_data_processing unicode_fragment [blank_file] fresh_world) = None
   \<and> output_excel (run_data_processing unicode_fragment [blank_file] fresh_world) = None
   \<and> \<not> list_all (\<lambda>line. list_all (isspace unicode_fragment) line) ragged_lines
   \<and> (\<exists>df. snd (process unicode_fragment ragged_files) = Inr df)"
proof -
  note none = input_errors [of "[]" unicode_fragment fresh_world]
  note blank = input_errors [of "[blank_file]" unicode_fragment fresh_world]
  note ragged = input_errors [of ragged_files unicode_fragment fresh_world]
  have b: "list_all (\<lambda>line. list_all (isspace unicode_fragment) line) (file_lines blank_file)"
    by (simp add: blank_file_def frag_defs)
  have r: "\<not> list_all (\<lambda>line. list_all (isspace unicode_fragment) line) ragged_lines"
    using ragged_read by (simp add: read_lines_empty_iff)
  have e0: "snd (process unicode_fragment []) =
      Inl (FileNotFoundError ''No files found in raw_data directory.'')"
    using none by simp
  have e1: "snd (process unicode_fragment [blank_file]) =
      Inl (ValueError ''Input file contains no data.'')"
    using blank b by simp
  have o0: "output_csv (run_data_processing unicode_fragment [] fresh_world) = None"
    using none e0 by (simp add: fresh_world_def)
  have o1: "output_csv (run_data_processing unicode_fragment [blank_file] fresh_world) = None"
    "output_excel (run_data_processing unicode_fragment [blank_file] fresh_world) = None"
    using blank e1 by (simp_all add: fresh_world_def)
  have ok: "\<exists>df. snd (process unicode_fragment ragged_files) = Inr df"
    using ragged r by (simp add: ragged_files_def)
  from e0 o0 b e1 o1 r ok show ?thesis
    by (intro conjI)
qed

section \<open>Rows wider than the header\<close>

lemma normalize_parts_length: "normalize_parts U ps = Inr vs \<Longrightarrow> length vs = length ps"
  using normalize_parts_total [of U ps] by auto

lemma parse_loop_header:
  "parse_loop U rows lines = Inr rows' \<Longrightarrow> rows \<noteq> [] \<Longrightarrow> hd rows' = hd rows"
proof (induction lines arbitrary: rows)
  case Nil
  then show ?case by simp
next
  case (Cons line lines)
  then obtain header rs where rows: "rows = header # rs" by (cases rows) auto
  from Cons.prems(1) rows obtain vs
    where "parse_loop U (rows @ [vs]) lines = Inr rows'"
    by (auto simp: Let_def split: sum.splits)
  from Cons.IH [OF this] rows show ?case by simp
qed

lemma parse_loop_widths:
  "parse_loop U rows lines = Inr rows' \<Longrightarrow>
   \<forall>r\<in>set rows. length r \<le> length (hd rows) \<Longrightarrow>
   \<forall>r\<in>set rows'. length r \<le> length (hd rows')"
proof (induction lines arbitrary: rows)
  case Nil
  then show ?case by simp
next
  case (Cons line lines)
  show ?case
  proof (cases rows)
    case Nil
    with Cons.prems(1)
    have "parse_loop U [map (py_strip U) (re_split line)] lines = Inr rows'"
      by (simp add: Let_def)
    from Cons.IH [OF this] show ?thesis by simp
  next
    case (Cons header rs)
    with Cons.prems(1) obtain vs
      where vs: "normalize_parts U (zip (map (py_strip U) (re_split line)) header) = Inr vs"
        and rec: "parse_loop U (rows @ [vs]) lines = Inr rows'"
      by (auto simp: Let_def split: sum.splits)
    from normalize_parts_length [OF vs] have "length vs \<le> length header" by simp
    with Cons.prems(2) Cons have "\<forall>r\<in>set (rows @ [vs]). length r \<le> length (hd (rows @ [vs]))"
      by auto
    from Cons.IH [OF rec this] show ?thesis .
  qed
qed

lemma Max_header:
  "\<forall>r\<in>set data_rows. length r \<le> length header \<Longrightarrow>
   Max (set (map length (header # data_rows))) = length header"
  by (auto intro!: Max_eqI)

text \<open>
  The comprehension over \<^verbatim>\<open>zip(parts, rows[0])\<close> stops at the shorter of the two lists, so a
  parsed data row never has more fields than the header. The widest row is then the header
  itself, and the header keeps exactly the fields of the first line: the loop that appends
  \<^verbatim>\<open>Additional_Field\<close> names is never entered.
\<close>

lemma header_never_extended:
  assumes "process U (f # fs) = (lg, Inr df)"
  shows "columns df = map (py_strip U) (re_split (hd (read_lines U (file_lines f))))
         \<and> list_all (\<lambda>row. length row = length (columns df)) (table_rows df)"
proof -
  let ?lines = "read_lines U (file_lines f)"
  from assms have ne: "?lines \<noteq> []"
    by (auto simp: process_def Let_def split: if_splits)
  then obtain l ls where lines: "?lines = l # ls" by (cases ?lines) auto
  from assms ne obtain header data_rows
    where p: "parse_loop U [] ?lines = Inr (header # data_rows)"
      and c: "columns df = extend_header header (Max (set (map length (header # data_rows))))"
    by (auto simp: process_def Let_def split: if_splits sum.splits list.splits)
  from p lines have p': "parse_loop U [map (py_strip U) (re_split l)] ls = Inr (header # data_rows)"
    by (simp add: Let_def)
  from parse_loop_header [OF p'] have h: "header = map (py_strip U) (re_split l)" by simp
  from parse_loop_widths [OF p'] have "\<forall>r\<in>set data_rows. length r \<le> length header"
    by simp
  from Max_header [OF this] c have "columns df = header"
    by (simp add: extend_header_def)
  moreover from process_rows [OF assms] obtain rs
    where "table_rows df = drop_duplicates (map (align_row (columns df)) rs)" ..
  then have "list_all (\<lambda>row. length row = length (columns df)) (table_rows df)"
    by (auto simp: list_all_iff drop_duplicates_set align_row_length)
  ultimately show ?thesis using h lines by simp
qed

lemma digits_of_3: "digits_of (Suc 2) = [0x33]"
  by (simp add: digits_of.simps)

lemma extend_header_example:
  "extend_header [a, b] 3 = [a, b, u ''Additional_Field_3'']"
proof -
  have "[length [a, b]..<3] = [2]"
    by (simp add: numeral_eq_Suc upt_conv_Cons)
  then have "extend_header [a, b] 3 = [a, b, u ''Additional_Field_'' @ digits_of (Suc 2)]"
    unfolding extend_header_def by simp
  then show ?thesis
    unfolding digits_of_3 by (simp add: u_simps)
qed

lemma ragged_fields:
  "map (py_strip unicode_fragment)
       (re_split (ivanov_typed @ [0x2C] @ moskva_typed @ [0x2C] @ [0x78, 0x31]))
     = [ivanov_typed, moskva_typed, [0x78, 0x31]]"
  by (simp add: example_defs eval_defs)

text \<open>
  Claim C1 on the code. The second line of the example has three fields, the header two.
  The exported header still has the two names of the first line; had the widest row
  counted three fields, \<open>extend_header\<close> would have added "Additional_Field_3".
\<close>

theorem ragged_header_not_extended:
  "length (map (py_strip unicode_fragment)
             (re_split (ivanov_typed @ [0x2C] @ moskva_typed @ [0x2C] @ [0x78, 0x31]))) = 3
   \<and> snd (process unicode_fragment ragged_files) =
       Inr \<lparr> columns = [col_employee, col_city],
             table_rows = [[ivanov_normal, moskva_normal]], audit_flag = [[]] \<rparr>
   \<and> extend_header [col_employee, col_city] 3 =
       [col_employee, col_city, u ''Additional_Field_3'']"
  unfolding ragged_fields ragged_process extend_header_example by simp

text \<open>
  Claim C2 on the code. The second line of the example splits into three fields; the parsed
  row has the two normalized fields that pair with a header name, and the third field "x1"
  is gone.
\<close>

theorem ragged_field_removed:
  "map (py_strip unicode_fragment)
       (re_split (ivanov_typed @ [0x2C] @ moskva_typed @ [0x2C] @ [0x78, 0x31]))
     = [ivanov_typed, moskva_typed, [0x78, 0x31]]
   \<and> parse_loop unicode_fragment [] (read_lines unicode_fragment ragged_lines)
     = Inr [[col_employee, col_city], [ivanov_normal, moskva_normal]]"
  unfolding ragged_fields ragged_parse by simp

section \<open>Person names\<close>

lemma split_ws_tokens:
  "list_all (\<lambda>c. \<not> isspace U c) cur \<Longrightarrow>
   list_all (\<lambda>w. w \<noteq> [] \<and> list_all (\<lambda>c. \<not> isspace U c) w) (split_ws U cur s)"
  by (induction s arbitrary: cur) auto

lemma py_split_tokens:
  "list_all (\<lambda>w. w \<noteq> [] \<and> list_all (\<lambda>c. \<not> isspace U c) w) (py_split U v)"
  unfolding py_split_def by (rule split_ws_tokens) simp

lemma py_capitalize_Cons:
  "w \<noteq> [] \<Longrightarrow> py_capitalize U w = to_title U (hd w) @ do_lower U [hd w] (tl w)"
  by (cases w) (simp_all add: py_capitalize_def)

text \<open>
  Claim C5, as the code has it. A non-empty value in a column whose lowercased name
  contains "sotrudnik" is split at white space into tokens that are not empty and hold no
  white space. A token of two code points whose second is a period becomes the uppercase
  of its first code point and the period. Any other token is capitalized by
  \<^verbatim>\<open>str.capitalize\<close>: its first code point by the titlecase mapping, the remaining ones
  lowercased where they stand. The results are joined by single spaces.
\<close>

theorem person_names:
  "v \<noteq> [] \<and> py_in lit_sotrudnik (py_lower U c) \<longrightarrow>
     normalize_text U v c =
       Inr (py_join [0x20]
             (map (\<lambda>w. if length w = 2 \<and> w ! 1 = 0x2E then to_upper U (w ! 0) @ [0x2E]
                       else to_title U (hd w) @ do_lower U [hd w] (tl w))
                  (py_split U v)))
     \<and> list_all (\<lambda>w. w \<noteq> [] \<and> list_all (\<lambda>c. \<not> isspace U c) w) (py_split U v)"
proof -
  have eq: "map (\<lambda>w. if length w = 2 \<and> w ! 1 = 0x2E then py_upper U [w ! 0] @ [0x2E]
                  else py_capitalize U w) (py_split U v)
      = map (\<lambda>w. if length w = 2 \<and> w ! 1 = 0x2E then to_upper U (w ! 0) @ [0x2E]
                  else to_title U (hd w) @ do_lower U [hd w] (tl w)) (py_split U v)"
    using py_split_tokens [of U v]
    by (intro map_cong) (auto simp: list_all_iff py_capitalize_Cons py_upper_def)
  have "normalize_fio U v =
        Inr (py_join [0x20]
              (map (\<lambda>w. if length w = 2 \<and> w ! 1 = 0x2E then to_upper U (w ! 0) @ [0x2E]
                        else to_title U (hd w) @ do_lower U [hd w] (tl w))
                   (py_split U v)))" if "v \<noteq> []"
    using normalize_fio_tokens [OF that, of U] unfolding eq .
  with py_split_tokens [of U v] show ?thesis
    by (simp add: normalize_text_def)
qed

theorem person_names_witness:
  "petrov_typed \<noteq> [] \<and> py_in lit_sotrudnik (py_lower unicode_fragment col_employee)
   \<and> py_split unicode_fragment petrov_typed
       = [[0x43F, 0x435, 0x442, 0x440, 0x43E, 0x432], [0x43F, 0x2E], [0x43F, 0x2E]]
   \<and> normalize_text unicode_fragment petrov_typed col_employee = Inr petrov_normal"
  using person_names [of petrov_typed unicode_fragment col_employee]
  by (simp add: example_defs eval_defs)

text \<open>
  Claim C5 as stated has the first character of a token uppercased. Titlecase and uppercase
  agree on every ASCII and Cyrillic letter, but not on the sharp s (U+00DF): its uppercase
  is "SS", its titlecase "Ss". The token made of sharp s and "a" becomes "Ssa", where
  uppercasing the first character and lowercasing the rest gives "SSa".
\<close>

theorem sharp_s_titlecased:
  "normalize_text unicode_fragment [0xDF, 0x61] col_employee = Inr [0x53, 0x73, 0x61]
   \<and> py_upper unicode_fragment [0xDF] @ py_lower unicode_fragment [0x61] = [0x53, 0x53, 0x61]"
  by (simp add: example_defs eval_defs)

section \<open>Normalizing twice\<close>

lemma simple_casedD:
  assumes "simple_cased U c"
  obtains t l where "to_title U c = [t]" "to_lower U c = [l]" "c \<noteq> 0x3A3" "l \<noteq> 0x3A3"
    "cased U t = cased U c" "cased U l = cased U c" "to_title U t = [t]" "to_lower U l = [l]"
  using assms
  by (auto simp: simple_cased_def split: list.splits prod.splits)

lemma do_title_idem:
  "list_all (simple_cased U) s \<Longrightarrow>
   do_title U sofar' prev (do_title U sofar prev s) = do_title U sofar prev s"
proof (induction s arbitrary: sofar sofar' prev)
  case Nil
  show ?case by simp
next
  case (Cons c s)
  from Cons.prems have sc: "simple_cased U c" and rest: "list_all (simple_cased U) s"
    by simp_all
  from sc obtain t l where tl: "to_title U c = [t]" "to_lower U c = [l]" "c \<noteq> 0x3A3" "l \<noteq> 0x3A3"
    "cased U t = cased U c" "cased U l = cased U c" "to_title U t = [t]" "to_lower U l = [l]"
    by (rule simple_casedD)
  show ?case
  proof (cases prev)
    case True
    with tl Cons.IH [OF rest]
    show ?thesis by (simp add: lower_ucs4_def)
  next
    case False
    with tl Cons.IH [OF rest]
    show ?thesis by (simp add: lower_ucs4_def)
  qed
qed

lemma py_title_idem:
  "list_all (simple_cased U) s \<Longrightarrow> py_title U (py_title U s) = py_title U s"
  unfolding py_title_def by (rule do_title_idem)

lemma normalize_location_idem:
  "list_all (simple_cased U) s \<Longrightarrow>
   normalize_location U (normalize_location U s) = normalize_location U s"
  by (simp add: normalize_location_def py_title_idem)

lemma strip_fixed:
  "xs \<noteq> [] \<Longrightarrow> \<not> P (hd xs) \<Longrightarrow> \<not> P (last xs) \<Longrightarrow>
   rev (dropWhile P (rev (dropWhile P xs))) = xs"
proof -
  assume ne: "xs \<noteq> []" and h: "\<not> P (hd xs)" and l: "\<not> P (last xs)"
  from ne h have "dropWhile P xs = xs" by (cases xs) auto
  moreover from ne l have "dropWhile P (rev xs) = rev xs"
    by (cases xs rule: rev_cases) auto
  ultimately show ?thesis by simp
qed

lemma py_strip_last:
  "py_strip U v \<noteq> [] \<Longrightarrow> \<not> isspace U (last (py_strip U v))"
proof -
  assume ne: "py_strip U v \<noteq> []"
  let ?d = "dropWhile (isspace U) (rev (dropWhile (isspace U) v))"
  from ne have "?d \<noteq> []" by (simp add: py_strip_def)
  then have "\<not> isspace U (hd ?d)" by (rule hd_dropWhile)
  moreover from \<open>?d \<noteq> []\<close> have "last (rev ?d) = hd ?d" by (simp add: last_rev)
  ultimately show ?thesis by (simp add: py_strip_def)
qed

lemma normalize_sentence_idem:
  assumes "stable_initial U v" and "normalize_sentence U v = Inr y"
  shows "normalize_sentence U y = Inr y"
proof (cases "py_strip U v")
  case Nil
  with assms(2) have "y = []" by (simp add: normalize_sentence_value)
  then show ?thesis by (simp add: normalize_sentence_value py_strip_def)
next
  case (Cons c rest)
  with assms(1) obtain d ds where up: "to_upper U c = d # ds"
    and d: "\<not> isspace U d" "\<not> isspace U (last (d # ds))" "to_upper U d = [d]"
    by (auto simp: stable_initial_def split: list.splits)
  from Cons assms(2) up have y: "y = d # ds @ rest"
    by (simp add: normalize_sentence_value)
  have "\<not> isspace U (last y)"
  proof (cases "rest = []")
    case True
    with y d(2) show ?thesis by simp
  next
    case False
    from py_strip_last [of U v] Cons False have "\<not> isspace U (last rest)" by simp
    with False y show ?thesis by simp
  qed
  with y d(1) have "py_strip U y = y"
    unfolding py_strip_def by (intro strip_fixed) simp_all
  with y d(3) show ?thesis
    by (simp add: normalize_sentence_value)
qed
















section \<open>The header extension step\<close>

text \<open>
  The extension step taken by itself does what claim C1 describes: given a widest row of
  more fields than the header, it brings the header to that length, keeps the old names
  and gives position \<open>k\<close> (counted from 1) the name "Additional_Field_k"; these names are
  pairwise different, since a number is determined by its decimal digits. The run never
  reaches this step with such a row (\<open>header_never_extended\<close>).
\<close>

lemma digits_of_value: "foldl (\<lambda>a d. 10 * a + (d - 48)) 0 (digits_of n) = n"
proof (induction n rule: digits_of.induct)
  case (1 n)
  show ?case
  proof (cases "n < 10")
    case True
    then show ?thesis by (simp add: digits_of.simps [of n])
  next
    case False
    with "1" show ?thesis by (simp add: digits_of.simps [of n])
  qed
qed

lemma digits_of_inj: "digits_of a = digits_of b \<Longrightarrow> a = b"
  by (metis digits_of_value)

lemma extend_header_names:
  assumes "length header < max_cols_found"
  shows "length (extend_header header max_cols_found) = max_cols_found"
    and "take (length header) (extend_header header max_cols_found) = header"
    and "\<forall>k. length header \<le> k \<and> k < max_cols_found \<longrightarrow>
           extend_header header max_cols_found ! k = u ''Additional_Field_'' @ digits_of (k + 1)"
    and "distinct (drop (length header) (extend_header header max_cols_found))"
proof -
  let ?name = "\<lambda>i. u ''Additional_Field_'' @ digits_of (i + 1)"
  have e: "extend_header header max_cols_found
      = header @ map ?name [length header..<max_cols_found]"
    using assms by (simp add: extend_header_def)
  show "length (extend_header header max_cols_found) = max_cols_found"
    using assms by (simp add: e)
  show "take (length header) (extend_header header max_cols_found) = header"
    by (simp add: e)
  show "\<forall>k. length header \<le> k \<and> k < max_cols_found \<longrightarrow>
      extend_header header max_cols_found ! k = u ''Additional_Field_'' @ digits_of (k + 1)"
    by (auto simp: e nth_append)
  have "inj_on ?name (set [length header..<max_cols_found])"
    by (rule inj_onI) (simp, metis digits_of_inj Suc_inject)
  then show "distinct (drop (length header) (extend_header header max_cols_found))"
    by (simp add: e distinct_map)
qed

section \<open>The fragment meets the conditions\<close>

text \<open>
  The uppercase mapping of the fragment sends every code point that is not white space to
  a string that starts and ends outside white space and whose first code point is its own
  uppercase. Its titlecase and lowercase mappings are single code points that keep the
  casedness, but for the sharp s and the capital I with dot above.
\<close>

lemma fragment_upper_stable:
  assumes "\<not> frag_isspace c"
  shows "\<exists>d ds. frag_to_upper c = d # ds \<and> \<not> frag_isspace d \<and> \<not> frag_isspace (last (d # ds))
     \<and> frag_to_upper d = [d]"
proof -
  consider "97 \<le> c \<and> c \<le> 122" | "0x430 \<le> c \<and> c \<le> 0x44F" | "0x450 \<le> c \<and> c \<le> 0x45F"
    | "c = 0xDF"
    | "\<not> (97 \<le> c \<and> c \<le> 122)" "\<not> (0x430 \<le> c \<and> c \<le> 0x44F)"
      "\<not> (0x450 \<le> c \<and> c \<le> 0x45F)" "c \<noteq> 0xDF"
    by blast
  then show ?thesis
  proof cases
    case 1
    then show ?thesis unfolding frag_to_upper_def frag_isspace_def by auto
  next
    case 2
    then show ?thesis unfolding frag_to_upper_def frag_isspace_def by auto
  next
    case 3
    then show ?thesis unfolding frag_to_upper_def frag_isspace_def by auto
  next
    case 4
    then show ?thesis unfolding frag_to_upper_def frag_isspace_def by simp
  next
    case 5
    then have "frag_to_upper c = [c]" unfolding frag_to_upper_def by auto
    with assms show ?thesis by simp
  qed
qed

lemma py_strip_hd:
  "py_strip U v = c # rest \<Longrightarrow> \<not> isspace U c"
proof -
  assume s: "py_strip U v = c # rest"
  let ?d = "dropWhile (isspace U) v"
  have "?d = [] \<Longrightarrow> py_strip U v = []" by (simp add: py_strip_def dropWhile_all)
  with s have ne: "?d \<noteq> []" by auto
  then have h: "\<not> isspace U (hd ?d)" by (rule hd_dropWhile)
  from ne obtain x xs where d: "?d = x # xs" by (cases ?d) auto
  with h have x: "\<not> isspace U x" by simp
  from s d have "rev (dropWhile (isspace U) (rev xs @ [x])) = c # rest"
    by (simp add: py_strip_def)
  then have "rev (dropWhile (isspace U) (rev xs) @ [x]) = c # rest"
    using x by (simp add: dropWhile_append3)
  then show ?thesis using x by simp
qed

lemma fragment_stable_initial: "stable_initial unicode_fragment v"
proof (cases "py_strip unicode_fragment v")
  case Nil
  then show ?thesis by (simp add: stable_initial_def)
next
  case (Cons c rest)
  from py_strip_hd [OF this] have "\<not> frag_isspace c" by (simp add: unicode_fragment_def)
  from fragment_upper_stable [OF this] Cons show ?thesis
    by (auto simp: stable_initial_def unicode_fragment_def)
qed

lemma simple_casedI:
  "c \<noteq> 0x3A3 \<Longrightarrow> to_title U c = [t] \<Longrightarrow> to_lower U c = [l] \<Longrightarrow> l \<noteq> 0x3A3 \<Longrightarrow>
   cased U t = cased U c \<Longrightarrow> cased U l = cased U c \<Longrightarrow> to_title U t = [t] \<Longrightarrow>
   to_lower U l = [l] \<Longrightarrow> simple_cased U c"
  by (simp add: simple_cased_def)

lemma frag_sel:
  "to_title unicode_fragment = frag_to_title" "to_lower unicode_fragment = frag_to_lower"
  "cased unicode_fragment = frag_cased"
  by (simp_all add: unicode_fragment_def)

lemmas frag_case_defs = frag_to_title_def frag_to_upper_def frag_to_lower_def frag_cased_def

lemma fragment_simple_upper_ascii:
  assumes "65 \<le> c \<and> c \<le> 90"
  shows "simple_cased unicode_fragment c"
proof (rule simple_casedI [where t = "c" and l = "c + 32"])
  from assms show "c \<noteq> 0x3A3" by simp
  from assms show "to_title unicode_fragment c = [c]"
    by (simp add: frag_sel frag_case_defs, arith?)
  from assms show "to_lower unicode_fragment c = [c + 32]"
    by (simp add: frag_sel frag_case_defs, arith?)
  from assms show "c + 32 \<noteq> 0x3A3" by simp
  from assms show "cased unicode_fragment (c) = cased unicode_fragment c"
    by (simp add: frag_sel frag_case_defs, arith?)
  from assms show "cased unicode_fragment (c + 32) = cased unicode_fragment c"
    by (simp add: frag_sel frag_case_defs, arith?)
  from assms show "to_title unicode_fragment (c) = [c]"
    by (simp add: frag_sel frag_case_defs, arith?)
  from assms show "to_lower unicode_fragment (c + 32) = [c + 32]"
    by (simp add: frag_sel frag_case_defs, arith?)
qed

lemma fragment_simple_lower_ascii:
  assumes "97 \<le> c \<and> c \<le> 122"
  shows "simple_cased unicode_fragment c"
proof (rule simple_casedI [where t = "c - 32" and l = "c"])
  from assms show "c \<noteq> 0x3A3" by simp
  from assms show "to_title unicode_fragment c = [c - 32]"
    by (simp add: frag_sel frag_case_defs, arith?)
  from assms show "to_lower unicode_fragment c = [c]"
    by (simp add: frag_sel frag_case_defs, arith?)
  from assms show "c \<noteq> 0x3A3" by simp
  from assms show "cased unicode_fragment (c - 32) = cased unicode_fragment c"
    by (simp add: frag_sel frag_case_defs, arith?)
  from assms show "cased unicode_fragment (c) = cased unicode_fragment c"
    by (simp add: frag_sel frag_case_defs, arith?)
  from assms show "to_title unicode_fragment (c - 32) = [c - 32]"
    by (simp add: frag_sel frag_case_defs, arith?)
  from assms show "to_lower unicode_fragment (c) = [c]"
    by (simp add: frag_sel frag_case_defs, arith?)
qed

lemma fragment_simple_upper_cyrillic_a:
  assumes "0x400 \<le> c \<and> c \<le> 0x40F"
  shows "simple_cased unicode_fragment c"
proof (rule simple_casedI [where t = "c" and l = "c + 80"])
  from assms show "c \<noteq> 0x3A3" by simp
  from assms show "to_title unicode_fragment c = [c]"
    by (simp add: frag_sel frag_case_defs, arith?)
  from assms show "to_lower unicode_fragment c = [c + 80]"
    by (simp add: frag_sel frag_case_defs, arith?)
  from assms show "c + 80 \<noteq> 0x3A3" by simp
  from assms show "cased unicode_fragment (c) = cased unicode_fragment c"
    by (simp add: frag_sel frag_case_defs, arith?)
  from assms show "cased unicode_fragment (c + 80) = cased unicode_fragment c"
    by (simp add: frag_sel frag_case_defs, arith?)
  from assms show "to_title unicode_fragment (c) = [c]"
    by (simp add: frag_sel frag_case_defs, arith?)
  from assms show "to_lower unicode_fragment (c + 80) = [c + 80]"
    by (simp add: frag_sel frag_case_defs, arith?)
qed

lemma fragment_simple_upper_cyrillic_b:
  assumes "0x410 \<le> c \<and> c \<le> 0x42F"
  shows "simple_cased unicode_fragment c"
proof (rule simple_casedI [where t = "c" and l = "c + 32"])
  from assms show "c \<noteq> 0x3A3" by simp
  from assms show "to_title unicode_fragment c = [c]"
    by (simp add: frag_sel frag_case_defs, arith?)
  from assms show "to_lower unicode_fragment c = [c + 32]"
    by (simp add: frag_sel frag_case_defs, arith?)
  from assms show "c + 32 \<noteq> 0x3A3" by simp
  from assms show "cased unicode_fragment (c) = cased unicode_fragment c"
    by (simp add: frag_sel frag_case_defs, arith?)
  from assms show "cased unicode_fragment (c + 32) = cased unicode_fragment c"
    by (simp add: frag_sel frag_case_defs, arith?)
  from assms show "to_title unicode_fragment (c) = [c]"
    by (simp add: frag_sel frag_case_defs, arith?)
  from assms show "to_lower unicode_fragment (c + 32) = [c + 32]"
    by (simp add: frag_sel frag_case_defs, arith?)
qed

lemma fragment_simple_lower_cyrillic_b:
  assumes "0x430 \<le> c \<and> c \<le> 0x44F"
  shows "simple_cased unicode_fragment c"
proof (rule simple_casedI [where t = "c - 32" and l = "c"])
  from assms show "c \<noteq> 0x3A3" by simp
  from assms show "to_title unicode_fragment c = [c - 32]"
    by (simp add: frag_sel frag_case_defs, arith?)
  from assms show "to_lower unicode_fragment c = [c]"
    by (simp add: frag_sel frag_case_defs, arith?)
  from assms show "c \<noteq> 0x3A3" by simp
  from assms show "cased unicode_fragment (c - 32) = cased unicode_fragment c"
    by (simp add: frag_sel frag_case_defs, arith?)
  from assms show "cased unicode_fragment (c) = cased unicode_fragment c"
    by (simp add: frag_sel frag_case_defs, arith?)
  from assms show "to_title unicode_fragment (c - 32) = [c - 32]"
    by (simp add: frag_sel frag_case_defs, arith?)
  from assms show "to_lower unicode_fragment (c) = [c]"
    by (simp add: frag_sel frag_case_defs, arith?)
qed

lemma fragment_simple_lower_cyrillic_a:
  assumes "0x450 \<le> c \<and> c \<le> 0x45F"
  shows "simple_cased unicode_fragment c"
proof (rule simple_casedI [where t = "c - 80" and l = "c"])
  from assms show "c \<noteq> 0x3A3" by simp
  from assms show "to_title unicode_fragment c = [c - 80]"
    by (simp add: frag_sel frag_case_defs, arith?)
  from assms show "to_lower unicode_fragment c = [c]"
    by (simp add: frag_sel frag_case_defs, arith?)
  from assms show "c \<noteq> 0x3A3" by simp
  from assms show "cased unicode_fragment (c - 80) = cased unicode_fragment c"
    by (simp add: frag_sel frag_case_defs, arith?)
  from assms show "cased unicode_fragment (c) = cased unicode_fragment c"
    by (simp add: frag_sel frag_case_defs, arith?)
  from assms show "to_title unicode_fragment (c - 80) = [c - 80]"
    by (simp add: frag_sel frag_case_defs, arith?)
  from assms show "to_lower unicode_fragment (c) = [c]"
    by (simp add: frag_sel frag_case_defs, arith?)
qed

lemma fragment_simple_caseless:
  assumes "c < 65 \<or> (90 < c \<and> c < 97) \<or> (122 < c \<and> c < 0x400) \<or> 0x45F < c"
    and "c \<noteq> 0x3A3" and "c \<noteq> 0xDF" and "c \<noteq> 0x130"
  shows "simple_cased unicode_fragment c"
proof (rule simple_casedI [where t = c and l = c])
  from assms show "c \<noteq> 0x3A3" by simp
  from assms show t: "to_title unicode_fragment c = [c]"
    unfolding frag_sel frag_case_defs by auto
  from assms show l: "to_lower unicode_fragment c = [c]"
    unfolding frag_sel frag_case_defs by auto
  from assms show "c \<noteq> 0x3A3" by simp
  show "cased unicode_fragment c = cased unicode_fragment c" ..
  show "cased unicode_fragment c = cased unicode_fragment c" ..
  from t show "to_title unicode_fragment c = [c]" .
  from l show "to_lower unicode_fragment c = [c]" .
qed

lemma fragment_simple_cased:
  assumes "c \<noteq> 0x3A3" and "c \<noteq> 0xDF" and "c \<noteq> 0x130"
  shows "simple_cased unicode_fragment c"
proof -
  consider "65 \<le> c \<and> c \<le> 90" | "97 \<le> c \<and> c \<le> 122"
    | "0x400 \<le> c \<and> c \<le> 0x40F" | "0x410 \<le> c \<and> c \<le> 0x42F"
    | "0x430 \<le> c \<and> c \<le> 0x44F" | "0x450 \<le> c \<and> c \<le> 0x45F"
    | "c < 65 \<or> (90 < c \<and> c < 97) \<or> (122 < c \<and> c < 0x400) \<or> 0x45F < c"
    by arith
  then show ?thesis
    using assms
    by cases
      (simp_all add: fragment_simple_upper_ascii fragment_simple_lower_ascii
        fragment_simple_upper_cyrillic_a fragment_simple_upper_cyrillic_b
        fragment_simple_lower_cyrillic_b fragment_simple_lower_cyrillic_a
        fragment_simple_caseless)
qed

text \<open>
  So on the fragment, sentence mode is idempotent on every string, and location mode on
  every string without sharp s, capital I with dot above and capital sigma.
\<close>

lemma fragment_sentence_idempotent:
  "normalize_sentence unicode_fragment x = Inr y \<Longrightarrow>
   normalize_sentence unicode_fragment y = Inr y"
  using fragment_stable_initial by (rule normalize_sentence_idem)

lemma fragment_location_idempotent:
  assumes "0x3A3 \<notin> set x" and "0xDF \<notin> set x" and "0x130 \<notin> set x"
  shows "normalize_location unicode_fragment (normalize_location unicode_fragment x)
         = normalize_location unicode_fragment x"
proof (rule normalize_location_idem)
  from assms show "list_all (simple_cased unicode_fragment) x"
    by (auto simp: list_all_iff intro!: fragment_simple_cased)
qed

end
